theory Spec2Isabelle
  imports Main
begin

section \<open>Chart loading from an embedded file tree (cli/helm/chart.go)\<close>

text \<open>
  The Go file \<^verbatim>\<open>cli/helm/chart.go\<close> reads a Helm chart out of an embedded,
  read-only file tree and re-roots every file name at the chart directory. Its own
  functions (\<^verbatim>\<open>readFile\<close>, \<^verbatim>\<open>readChartFiles\<close>, \<^verbatim>\<open>FetchChartValues\<close>, \<^verbatim>\<open>a\<close>) are
  embedded below line by line. They call into Go's standard library
  (\<^verbatim>\<open>path/filepath\<close>, \<^verbatim>\<open>io/fs\<close>, \<^verbatim>\<open>embed\<close>) and into the Helm SDK; the standard
  library functions are modelled first and the Helm calls are taken as parameters.

  The functions of \<^verbatim>\<open>path/filepath\<close> depend on the operating system the program is
  built for: they separate the elements of a path with the slash on Unix systems and with
  the backslash on Windows. The paths of \<^verbatim>\<open>io/fs\<close> and \<^verbatim>\<open>embed\<close> are separated by
  the slash on every system. So the functions of \<^verbatim>\<open>path/filepath\<close>, and the functions
  of \<^verbatim>\<open>chart.go\<close> that call them, take the operating system as their first argument,
  and the functions of \<^verbatim>\<open>io/fs\<close> and \<^verbatim>\<open>embed\<close> do not.

  A Go function returning \<^verbatim>\<open>(T, error)\<close> is a function into a pair whose second
  component is an \<open>error option\<close>: \<open>None\<close> is the \<^verbatim>\<open>nil\<close> error. A pointer result is
  an \<open>option\<close> (\<open>None\<close> is \<^verbatim>\<open>nil\<close>), a slice is a list (\<open>[]\<close> is the \<^verbatim>\<open>nil\<close> slice).
  Strings are byte lists, as in Go.
\<close>

subsection \<open>Errors\<close>

datatype errno = ErrNotExist | IsADirectory | NotADirectory

datatype error =
    PathError string string errno
  | RelError string string

subsection \<open>The operating system of the build\<close>

text \<open>
  \<^verbatim>\<open>filepath.Separator\<close> and \<^verbatim>\<open>os.IsPathSeparator\<close>: on Windows the separator is the
  backslash (the byte \<open>0x5C\<close>), and the slash separates path elements as well. Two path
  elements are the same word when they are equal, and on Windows when they are equal up
  to the case of their letters (\<^verbatim>\<open>strings.EqualFold\<close>, here for the letters of ASCII).

  A volume name of Windows (a drive letter with its colon, a UNC prefix) is not modelled:
  on \<open>windows\<close> the functions below are those of Go for paths that have no colon and do
  not begin with two separators.
\<close>

datatype goos = unix | windows

definition Separator :: "goos \<Rightarrow> char" where
  "Separator os = (case os of unix \<Rightarrow> CHR ''/'' | windows \<Rightarrow> CHR 0x5C)"

definition IsPathSeparator :: "goos \<Rightarrow> char \<Rightarrow> bool" where
  "IsPathSeparator os c =
     (case os of unix \<Rightarrow> c = CHR ''/'' | windows \<Rightarrow> c = CHR 0x5C \<or> c = CHR ''/'')"

definition asciiLower :: "char \<Rightarrow> char" where
  "asciiLower c =
     (let n = (of_char c :: nat)
      in if 65 \<le> n \<and> n \<le> 90 then char_of (n + 32) else c)"

definition sameWord :: "goos \<Rightarrow> string \<Rightarrow> string \<Rightarrow> bool" where
  "sameWord os x y =
     (case os of unix \<Rightarrow> x = y | windows \<Rightarrow> map asciiLower x = map asciiLower y)"

subsection \<open>Splitting and joining a path of the operating system\<close>

text \<open>The elements of a path: the maximal runs between separators, empty runs included.\<close>

fun splitPath :: "goos \<Rightarrow> string \<Rightarrow> string list" where
  "splitPath os [] = [[]]"
| "splitPath os (c # cs) =
     (if IsPathSeparator os c then [] # splitPath os cs
      else (case splitPath os cs of [] \<Rightarrow> [[c]] | x # xs \<Rightarrow> (c # x) # xs))"

text \<open>\<^verbatim>\<open>strings.Join(elems, string(Separator))\<close>.\<close>

fun joinPath :: "goos \<Rightarrow> string list \<Rightarrow> string" where
  "joinPath os [] = []"
| "joinPath os [x] = x"
| "joinPath os (x # y # ys) = x @ Separator os # joinPath os (y # ys)"

subsection \<open>\<^verbatim>\<open>filepath.Clean\<close>\<close>

text \<open>
  \<^verbatim>\<open>filepath.Clean\<close> scans the path element by element and writes the result into a
  buffer: an empty element and \<^verbatim>\<open>.\<close> are dropped; \<^verbatim>\<open>..\<close> removes the last element
  written when there is one to remove (one that is not itself a leading \<^verbatim>\<open>..\<close>), is
  dropped at the root of a rooted path, and is written otherwise; every other element is
  written. The buffer is kept here as the list of the elements written so far; they are
  written with \<^verbatim>\<open>filepath.Separator\<close> between them.
\<close>

definition cleanStep :: "bool \<Rightarrow> string list \<Rightarrow> string \<Rightarrow> string list" where
  "cleanStep rooted out e =
     (if e = [] \<or> e = ''.'' then out
      else if e = ''..'' then
        (if out \<noteq> [] \<and> last out \<noteq> ''..'' then butlast out
         else if \<not> rooted then out @ [''..'']
         else out)
      else out @ [e])"

definition Clean :: "goos \<Rightarrow> string \<Rightarrow> string" where
  "Clean os path =
     (if path = [] then ''.''
      else
        let rooted = IsPathSeparator os (hd path);
            out = foldl (cleanStep rooted) [] (splitPath os path)
        in if rooted then Separator os # joinPath os out
           else if out = [] then ''.''
           else joinPath os out)"

subsection \<open>\<^verbatim>\<open>filepath.Join\<close>\<close>

text \<open>
  \<^verbatim>\<open>filepath.Join\<close> skips the leading empty elements, joins the rest with the
  separator and cleans the result; with no non-empty element the result is the empty
  string.
\<close>

definition Join :: "goos \<Rightarrow> string list \<Rightarrow> string" where
  "Join os elem =
     (case dropWhile (\<lambda>e. e = []) elem of
        [] \<Rightarrow> []
      | es \<Rightarrow> Clean os (joinPath os es))"

subsection \<open>\<^verbatim>\<open>filepath.Rel\<close>\<close>

text \<open>
  The loop of \<^verbatim>\<open>filepath.Rel\<close> walks \<^verbatim>\<open>base\<close> and \<^verbatim>\<open>targ\<close> element by element
  while the elements are the same word. \<open>relLoop os b t\<close> is called with \<^verbatim>\<open>base[b0:]\<close>
  and \<^verbatim>\<open>targ[t0:]\<close> and returns these two remainders at the exit of the loop together
  with \<^verbatim>\<open>base[b0:bi]\<close>: the element of \<^verbatim>\<open>base\<close> at which the loop broke off, or the
  empty string when the loop ran until one of the two paths was used up.
\<close>

function relLoop :: "goos \<Rightarrow> string \<Rightarrow> string \<Rightarrow> string \<times> string \<times> string" where
  "relLoop os b t =
     (if b \<noteq> [] \<and> t \<noteq> [] then
        let be = takeWhile (\<lambda>c. c \<noteq> Separator os) b;
            te = takeWhile (\<lambda>c. c \<noteq> Separator os) t
        in if \<not> sameWord os te be then (b, t, be)
           else relLoop os (drop (Suc (length be)) b) (drop (Suc (length te)) t)
      else (b, t, []))"
  by pat_completeness auto
termination
  by (relation "measure (\<lambda>(os, b, t). length b)") auto

definition Rel :: "goos \<Rightarrow> string \<Rightarrow> string \<Rightarrow> string \<times> error option" where
  "Rel os basepath targpath =
     (let base = Clean os basepath;
          targ = Clean os targpath
      in if sameWord os targ base then (''.'', None)
         else
           let base = (if base = ''.'' then [] else base);
               baseSlashed = (base \<noteq> [] \<and> hd base = Separator os);
               targSlashed = (targ \<noteq> [] \<and> hd targ = Separator os)
           in if baseSlashed \<noteq> targSlashed then ([], Some (RelError targpath basepath))
              else
                (case relLoop os base targ of
                   (brest, trest, belem) \<Rightarrow>
                     if belem = ''..'' then ([], Some (RelError targpath basepath))
                     else if brest \<noteq> [] then
                       let seps = count_list brest (Separator os)
                       in (''..'' @ concat (replicate seps (Separator os # ''..''))
                             @ (if trest \<noteq> [] then Separator os # trest else []), None)
                     else (trest, None)))"

subsection \<open>Slash-separated paths\<close>

text \<open>
  The paths of \<^verbatim>\<open>io/fs\<close> and of \<^verbatim>\<open>embed\<close> are separated by the slash on every
  operating system, and these packages split them at the slash themselves.
\<close>

definition Slash :: char where
  "Slash = CHR ''/''"

fun splitSlash :: "string \<Rightarrow> string list" where
  "splitSlash [] = [[]]"
| "splitSlash (c # cs) =
     (if c = Slash then [] # splitSlash cs
      else (case splitSlash cs of [] \<Rightarrow> [[c]] | x # xs \<Rightarrow> (c # x) # xs))"

fun joinSlash :: "string list \<Rightarrow> string" where
  "joinSlash [] = []"
| "joinSlash [x] = x"
| "joinSlash (x # y # ys) = x @ Slash # joinSlash (y # ys)"

subsection \<open>\<^verbatim>\<open>fs.ValidPath\<close>\<close>

text \<open>
  A valid path of \<^verbatim>\<open>io/fs\<close> is \<^verbatim>\<open>.\<close> or a slash-separated sequence of elements none
  of which is empty, \<^verbatim>\<open>.\<close> or \<^verbatim>\<open>..\<close>. (Path strings are taken to be valid UTF-8.)
\<close>

definition ValidPath :: "string \<Rightarrow> bool" where
  "ValidPath name =
     (name = ''.'' \<or> (\<forall>e \<in> set (splitSlash name). e \<noteq> [] \<and> e \<noteq> ''.'' \<and> e \<noteq> ''..''))"

subsection \<open>The embedded file tree (\<^verbatim>\<open>embed.FS\<close>)\<close>

text \<open>
  An \<^verbatim>\<open>embed.FS\<close> holds a list of files: each has its full slash-separated path, is a
  directory or a regular file, and a regular file has its content. A directory listing
  is the part of that list whose paths lie directly in the directory, in the order of the
  list.
\<close>

record embedFile =
  fname :: string
  fisDir :: bool
  fdata :: string

type_synonym embedFS = "embedFile list"

datatype dirEntry = DirEntry (Name_of: string) (IsDir: bool)

text \<open>\<open>split\<close> of \<^verbatim>\<open>embed\<close>: the directory of a path (\<^verbatim>\<open>.\<close> when it has none) and its last element.\<close>

definition dirOf :: "string \<Rightarrow> string" where
  "dirOf name =
     (if Slash \<in> set name then joinSlash (butlast (splitSlash name)) else ''.'')"

definition elemOf :: "string \<Rightarrow> string" where
  "elemOf name = last (splitSlash name)"

definition dotFile :: embedFile where
  "dotFile = \<lparr>fname = ''./'', fisDir = True, fdata = []\<rparr>"

definition lookup :: "embedFS \<Rightarrow> string \<Rightarrow> embedFile option" where
  "lookup f name =
     (if \<not> ValidPath name then None
      else if name = ''.'' then Some dotFile
      else find (\<lambda>x. fname x = name) f)"

definition ReadFile :: "embedFS \<Rightarrow> string \<Rightarrow> string \<times> error option" where
  "ReadFile f name =
     (case lookup f name of
        None \<Rightarrow> ([], Some (PathError ''open'' name ErrNotExist))
      | Some x \<Rightarrow>
          if fisDir x then ([], Some (PathError ''read'' name IsADirectory))
          else (fdata x, None))"

definition ReadDir :: "embedFS \<Rightarrow> string \<Rightarrow> dirEntry list \<times> error option" where
  "ReadDir f name =
     (case lookup f name of
        None \<Rightarrow> ([], Some (PathError ''open'' name ErrNotExist))
      | Some x \<Rightarrow>
          if \<not> fisDir x then ([], Some (PathError ''read'' name NotADirectory))
          else (map (\<lambda>y. DirEntry (elemOf (fname y)) (fisDir y))
                  (filter (\<lambda>y. dirOf (fname y) = name) f), None))"

subsection \<open>The chart file collector\<close>

record bufferedFile =
  Name :: string
  Data :: string

definition chartFileName :: string where
  "chartFileName = ''Chart.yaml''"

definition valuesFileName :: string where
  "valuesFileName = ''values.yaml''"

definition templatesDirName :: string where
  "templatesDirName = ''templates''"

definition readFile ::
  "goos \<Rightarrow> embedFS \<Rightarrow> string \<Rightarrow> string \<Rightarrow> bufferedFile option \<times> error option" where
  "readFile os chart filename pathPrefix =
     (case ReadFile chart filename of
        (bytes, Some err) \<Rightarrow> (None, Some err)
      | (bytes, None) \<Rightarrow>
          (case Rel os pathPrefix filename of
             (rel, Some err) \<Rightarrow> (None, Some err)
           | (rel, None) \<Rightarrow> (Some \<lparr>Name = rel, Data = bytes\<rparr>, None)))"

text \<open>The first loop of \<^verbatim>\<open>readChartFiles\<close>, over the two required file names.\<close>

fun readRequired ::
  "goos \<Rightarrow> embedFS \<Rightarrow> string \<Rightarrow> string list \<Rightarrow> bufferedFile option list
     \<Rightarrow> bufferedFile option list \<times> error option" where
  "readRequired os chart chartDirName [] chartFiles = (chartFiles, None)"
| "readRequired os chart chartDirName (f # fs) chartFiles =
     (case readFile os chart (Join os [chartDirName, f]) chartDirName of
        (file, Some err) \<Rightarrow> ([], Some err)
      | (file, None) \<Rightarrow> readRequired os chart chartDirName fs (chartFiles @ [file]))"

text \<open>The second loop, over the listing of the templates directory.\<close>

fun readTemplates ::
  "goos \<Rightarrow> embedFS \<Rightarrow> string \<Rightarrow> dirEntry list \<Rightarrow> bufferedFile option list
     \<Rightarrow> bufferedFile option list \<times> error option" where
  "readTemplates os chart chartDirName [] chartFiles = (chartFiles, None)"
| "readTemplates os chart chartDirName (f # dirs) chartFiles =
     (if IsDir f then readTemplates os chart chartDirName dirs chartFiles
      else
        (case readFile os chart (Join os [chartDirName, templatesDirName, Name_of f]) chartDirName of
           (file, Some err) \<Rightarrow> ([], Some err)
         | (file, None) \<Rightarrow> readTemplates os chart chartDirName dirs (chartFiles @ [file])))"

definition readChartFiles ::
  "goos \<Rightarrow> embedFS \<Rightarrow> string \<Rightarrow> bufferedFile option list \<times> error option" where
  "readChartFiles os chart chartDirName =
     (case readRequired os chart chartDirName [chartFileName, valuesFileName] [] of
        (chartFiles, Some err) \<Rightarrow> (chartFiles, Some err)
      | (chartFiles, None) \<Rightarrow>
          (case ReadDir chart (Join os [chartDirName, templatesDirName]) of
             (dirs, Some err) \<Rightarrow> ([], Some err)
           | (dirs, None) \<Rightarrow> readTemplates os chart chartDirName dirs chartFiles))"

subsection \<open>Fetching the values of an installed release\<close>

text \<open>
  \<^verbatim>\<open>FetchChartValues\<close> calls \<^verbatim>\<open>InitActionConfig\<close> (a function of this package that is
  defined in another file) and the status action of the Helm SDK
  (\<^verbatim>\<open>action.NewStatus(cfg).Run(name)\<close>). Both talk to the cluster, so they are taken as
  parameters that read and change a state of the outside world; \<open>Config\<close> is the field
  of the release the function returns. Every call to one of the two is recorded, in
  order, so that the number and the order of the calls can be stated.
\<close>

datatype extCall = CallInitActionConfig string | CallStatusRun string

record 'w extState =
  world :: 'w
  calls :: "extCall list"

record ('cfg, 'set, 'log, 'rel, 'vals, 'e, 'w) helmEnv =
  newConfiguration :: 'cfg
  InitActionConfig :: "'cfg \<Rightarrow> string \<Rightarrow> 'set \<Rightarrow> 'log \<Rightarrow> 'w \<Rightarrow> ('cfg option \<times> 'e option) \<times> 'w"
  StatusRun :: "'cfg option \<Rightarrow> string \<Rightarrow> 'w \<Rightarrow> ('rel option \<times> 'e option) \<times> 'w"
  Config :: "'rel \<Rightarrow> 'vals option"

text \<open>
  A call returns its two results, or panics: reading a field through a \<^verbatim>\<open>nil\<close> pointer
  is a run-time panic in Go.
\<close>

datatype 'a outcome = Returns 'a | Panics

definition FetchChartValues ::
  "('cfg, 'set, 'log, 'rel, 'vals, 'e, 'w) helmEnv \<Rightarrow> string \<Rightarrow> string \<Rightarrow> 'set \<Rightarrow> 'log
     \<Rightarrow> 'w extState \<Rightarrow> ('vals option \<times> 'e option) outcome \<times> 'w extState" where
  "FetchChartValues h namespace name settings uiLogger s =
     (let cfg = newConfiguration h in
      case InitActionConfig h cfg namespace settings uiLogger (world s) of
        ((cfg, err), w1) \<Rightarrow>
          let s1 = \<lparr>world = w1, calls = calls s @ [CallInitActionConfig namespace]\<rparr> in
          (case err of
             Some e \<Rightarrow> (Returns (None, Some e), s1)
           | None \<Rightarrow>
               (case StatusRun h cfg name (world s1) of
                  ((release, err), w2) \<Rightarrow>
                    let s2 = \<lparr>world = w2, calls = calls s1 @ [CallStatusRun name]\<rparr> in
                    (case err of
                       Some e \<Rightarrow> (Returns (None, Some e), s2)
                     | None \<Rightarrow>
                         (case release of
                            None \<Rightarrow> (Panics, s2)
                          | Some r \<Rightarrow> (Returns (Config h r, None), s2))))))"

text \<open>The unexported function \<^verbatim>\<open>a\<close>.\<close>

definition a ::
  "('cfg, 'set, 'log, 'rel, 'vals, 'e, 'w) helmEnv \<Rightarrow> 'cfg option \<Rightarrow> string
     \<Rightarrow> 'w extState \<Rightarrow> ('vals option \<times> 'e option) outcome \<times> 'w extState" where
  "a h config name s =
     (case StatusRun h config name (world s) of
        ((release, err), w1) \<Rightarrow>
          let s1 = \<lparr>world = w1, calls = calls s @ [CallStatusRun name]\<rparr> in
          (case err of
             Some e \<Rightarrow> (Returns (None, Some e), s1)
           | None \<Rightarrow>
               (case release of
                  None \<Rightarrow> (Panics, s1)
                | Some r \<Rightarrow> (Returns (Config h r, None), s1))))"

text \<open>
  An example of the outside world: the state counts the queries made so far; one release,
  \<^verbatim>\<open>consul\<close>, is installed; the configuration cannot be initialised for the namespace
  \<^verbatim>\<open>locked\<close>.
\<close>

definition demoHelm :: "(string, unit, unit, string \<times> string, string, string, nat) helmEnv" where
  "demoHelm =
     \<lparr>newConfiguration = [],
      InitActionConfig = (\<lambda>cfg namespace settings uiLogger w.
         if namespace = ''locked'' then ((None, Some ''forbidden''), w)
         else ((Some namespace, None), w)),
      StatusRun = (\<lambda>cfg name w.
         if name = ''consul'' then ((Some (name, ''replicas: 3''), None), Suc w)
         else ((None, Some ''release: not found''), Suc w)),
      Config = (\<lambda>r. Some (snd r))\<rparr>"

subsection \<open>Auxiliary notions for the proofs\<close>

text \<open>
  The notions of this subsection are those of slash-separated paths: the paths of the tree,
  and the paths of \<^verbatim>\<open>path/filepath\<close> on a Unix build.

  An ordinary path element: not empty, not \<^verbatim>\<open>.\<close>, not \<^verbatim>\<open>..\<close>, and without a slash.
\<close>

definition normalElem :: "string \<Rightarrow> bool" where
  "normalElem e = (e \<noteq> [] \<and> e \<noteq> ''.'' \<and> e \<noteq> ''..'' \<and> Slash \<notin> set e)"

definition isRooted :: "string \<Rightarrow> bool" where
  "isRooted path = (path \<noteq> [] \<and> hd path = Slash)"

text \<open>The elements \<^verbatim>\<open>Clean\<close> has written at the end of its scan, and the string it returns for them.\<close>

definition cleanOut :: "string \<Rightarrow> string list" where
  "cleanOut path = foldl (cleanStep (isRooted path)) [] (splitSlash path)"

definition render :: "bool \<Rightarrow> string list \<Rightarrow> string" where
  "render rooted out =
     (if rooted then Slash # joinSlash out
      else if out = [] then ''.''
      else joinSlash out)"

text \<open>
  The shape of the buffer of \<^verbatim>\<open>Clean\<close>: a run of \<^verbatim>\<open>..\<close> elements (none in a rooted
  path) followed by ordinary elements.
\<close>

definition cleanShape :: "bool \<Rightarrow> string list \<Rightarrow> bool" where
  "cleanShape rooted out =
     (list_all normalElem (dropWhile (\<lambda>e. e = ''..'') out)
      \<and> (rooted \<longrightarrow> list_all normalElem out))"








subsection \<open>The trees of the examples\<close>

text \<open>
  The tree of the scenario: a chart at \<^verbatim>\<open>charts/demo\<close> with one template and one
  sub-directory of the templates directory.
\<close>

definition demoTree :: embedFS where
  "demoTree =
     [\<lparr>fname = ''charts'', fisDir = True, fdata = []\<rparr>,
      \<lparr>fname = ''charts/demo'', fisDir = True, fdata = []\<rparr>,
      \<lparr>fname = ''charts/demo/Chart.yaml'', fisDir = False, fdata = ''name: demo''\<rparr>,
      \<lparr>fname = ''charts/demo/templates'', fisDir = True, fdata = []\<rparr>,
      \<lparr>fname = ''charts/demo/values.yaml'', fisDir = False, fdata = ''replicas: 1''\<rparr>,
      \<lparr>fname = ''charts/demo/templates/sub'', fisDir = True, fdata = []\<rparr>,
      \<lparr>fname = ''charts/demo/templates/svc.yaml'', fisDir = False, fdata = ''kind: Service''\<rparr>]"

text \<open>The same tree without \<^verbatim>\<open>values.yaml\<close>, and without the templates directory.\<close>

definition treeWithoutValues :: embedFS where
  "treeWithoutValues =
     [\<lparr>fname = ''charts'', fisDir = True, fdata = []\<rparr>,
      \<lparr>fname = ''charts/demo'', fisDir = True, fdata = []\<rparr>,
      \<lparr>fname = ''charts/demo/Chart.yaml'', fisDir = False, fdata = ''name: demo''\<rparr>,
      \<lparr>fname = ''charts/demo/templates'', fisDir = True, fdata = []\<rparr>,
      \<lparr>fname = ''charts/demo/templates/svc.yaml'', fisDir = False, fdata = ''kind: Service''\<rparr>]"

definition treeWithoutTemplates :: embedFS where
  "treeWithoutTemplates =
     [\<lparr>fname = ''charts'', fisDir = True, fdata = []\<rparr>,
      \<lparr>fname = ''charts/demo'', fisDir = True, fdata = []\<rparr>,
      \<lparr>fname = ''charts/demo/Chart.yaml'', fisDir = False, fdata = ''name: demo''\<rparr>,
      \<lparr>fname = ''charts/demo/values.yaml'', fisDir = False, fdata = ''replicas: 1''\<rparr>]"


section \<open>The path operations on a Unix build\<close>

text \<open>
  On a Unix build the separator is the slash, so that the functions of \<^verbatim>\<open>path/filepath\<close>
  split and join a path as \<^verbatim>\<open>io/fs\<close> does.
\<close>

declare relLoop.simps [simp del]

lemma Separator_unix [simp]: "Separator unix = Slash"
  by (simp add: Separator_def Slash_def)

lemma IsPathSeparator_unix [simp]: "IsPathSeparator unix c = (c = Slash)"
  by (simp add: IsPathSeparator_def Slash_def)

lemma sameWord_unix [simp]: "sameWord unix x y = (x = y)"
  by (simp add: sameWord_def)

lemma splitPath_unix [simp]: "splitPath unix s = splitSlash s"
  by (induction s) auto

lemma joinPath_unix [simp]: "joinPath unix xs = joinSlash xs"
  by (induction xs rule: joinSlash.induct) simp_all

lemma Clean_unix:
  "Clean unix path =
     (if path = [] then ''.''
      else
        let rooted = (hd path = Slash);
            out = foldl (cleanStep rooted) [] (splitSlash path)
        in if rooted then Slash # joinSlash out
           else if out = [] then ''.''
           else joinSlash out)"
  by (simp add: Clean_def Let_def)

lemma Join_unix:
  "Join unix elem =
     (case dropWhile (\<lambda>e. e = []) elem of
        [] \<Rightarrow> []
      | es \<Rightarrow> Clean unix (joinSlash es))"
  unfolding Join_def joinPath_unix by (rule refl)

lemma relLoop_unix:
  "relLoop unix b t =
     (if b \<noteq> [] \<and> t \<noteq> [] then
        let be = takeWhile (\<lambda>c. c \<noteq> Slash) b;
            te = takeWhile (\<lambda>c. c \<noteq> Slash) t
        in if te \<noteq> be then (b, t, be)
           else relLoop unix (drop (Suc (length be)) b) (drop (Suc (length te)) t)
      else (b, t, []))"
  by (subst relLoop.simps) simp

lemma Rel_unix:
  "Rel unix basepath targpath =
     (let base = Clean unix basepath;
          targ = Clean unix targpath
      in if targ = base then (''.'', None)
         else
           let base = (if base = ''.'' then [] else base);
               baseSlashed = (base \<noteq> [] \<and> hd base = Slash);
               targSlashed = (targ \<noteq> [] \<and> hd targ = Slash)
           in if baseSlashed \<noteq> targSlashed then ([], Some (RelError targpath basepath))
              else
                (case relLoop unix base targ of
                   (brest, trest, belem) \<Rightarrow>
                     if belem = ''..'' then ([], Some (RelError targpath basepath))
                     else if brest \<noteq> [] then
                       let seps = count_list brest Slash
                       in (''..'' @ concat (replicate seps (Slash # ''..''))
                             @ (if trest \<noteq> [] then Slash # trest else []), None)
                     else (trest, None)))"
  unfolding Rel_def Separator_unix sameWord_unix by (rule refl)


lemma splitSlash_ne [simp]: "splitSlash s \<noteq> []"
  by (induction s) (auto split: list.splits)

lemma splitSlash_append_sep: "splitSlash (p @ Slash # q) = splitSlash p @ splitSlash q"
  by (induction p) (auto split: list.splits)

lemma splitSlash_nosep: "Slash \<notin> set s \<Longrightarrow> splitSlash s = [s]"
  by (induction s) (auto split: list.splits)

lemma splitSlash_elems_nosep: "e \<in> set (splitSlash s) \<Longrightarrow> Slash \<notin> set e"
  by (induction s arbitrary: e) (auto split: list.splits if_splits)

lemma joinSlash_Cons: "xs \<noteq> [] \<Longrightarrow> joinSlash (x # xs) = x @ Slash # joinSlash xs"
  by (cases xs) auto

lemma joinSlash_append:
  "xs \<noteq> [] \<Longrightarrow> ys \<noteq> [] \<Longrightarrow> joinSlash (xs @ ys) = joinSlash xs @ Slash # joinSlash ys"
  by (induction xs rule: joinSlash.induct) (auto simp: joinSlash_Cons)

lemma splitSlash_joinSlash:
  "xs \<noteq> [] \<Longrightarrow> \<forall>x \<in> set xs. Slash \<notin> set x \<Longrightarrow> splitSlash (joinSlash xs) = xs"
  by (induction xs rule: joinSlash.induct) (auto simp: splitSlash_nosep splitSlash_append_sep)



lemma foldl_cleanStep_normal:
  "list_all normalElem F \<Longrightarrow> foldl (cleanStep r) S F = S @ F"
  by (induction F arbitrary: S) (auto simp: cleanStep_def normalElem_def)

lemma foldl_cleanStep_dotdots:
  "foldl (cleanStep False) (replicate j ''..'') (replicate k ''..'') = replicate (j + k) ''..''"
proof (induction k arbitrary: j)
  case 0
  then show ?case by simp
next
  case (Suc k)
  have "cleanStep False (replicate j ''..'') ''..'' = replicate (Suc j) ''..''"
    by (cases j) (auto simp: cleanStep_def replicate_append_same)
  then show ?case using Suc.IH[of "Suc j"] by simp
qed

lemma cleanShape_split:
  "cleanShape r S \<Longrightarrow> \<exists>k N. S = replicate k ''..'' @ N \<and> list_all normalElem N \<and> (r \<longrightarrow> k = 0)"
proof -
  assume a: "cleanShape r S"
  let ?U = "takeWhile (\<lambda>e. e = ''..'') S"
  let ?N = "dropWhile (\<lambda>e. e = ''..'') S"
  have u: "?U = replicate (length ?U) ''..''"
    by (rule replicate_length_same[symmetric]) (auto dest: set_takeWhileD)
  have n: "list_all normalElem ?N" using a by (simp add: cleanShape_def)
  show ?thesis
  proof (cases r)
    case False
    have "S = replicate (length ?U) ''..'' @ ?N" using u by (metis takeWhile_dropWhile_id)
    then show ?thesis using n False by blast
  next
    case True
    then have "list_all normalElem S" using a by (simp add: cleanShape_def)
    then have "S = replicate 0 ''..'' @ S \<and> list_all normalElem S" by simp
    then show ?thesis by blast
  qed
qed

lemma foldl_cleanStep_shape:
  assumes "cleanShape r S"
  shows "foldl (cleanStep r) [] S = S"
proof -
  obtain k N where kn: "S = replicate k ''..'' @ N" "list_all normalElem N" "r \<longrightarrow> k = 0"
    using cleanShape_split[OF assms] by blast
  show ?thesis
  proof (cases r)
    case True
    then show ?thesis using kn by (simp add: foldl_cleanStep_normal)
  next
    case False
    then show ?thesis using kn foldl_cleanStep_dotdots[of 0 k]
      by (simp add: foldl_cleanStep_normal)
  qed
qed

lemma Clean_render: "Clean unix path = render (isRooted path) (cleanOut path)"
  by (auto simp: Clean_unix render_def isRooted_def cleanOut_def Let_def cleanStep_def)


lemma dropWhile_dotdots_normal:
  "list_all normalElem N \<Longrightarrow> dropWhile (\<lambda>e. e = ''..'') (replicate k ''..'' @ N) = N"
  by (induction k) (cases N; auto simp: normalElem_def)+

lemma cleanShapeI:
  "list_all normalElem N \<Longrightarrow> r \<longrightarrow> k = 0 \<Longrightarrow> cleanShape r (replicate k ''..'' @ N)"
  by (auto simp: cleanShape_def dropWhile_dotdots_normal)

lemma cleanShape_Nil [simp]: "cleanShape r []"
  by (simp add: cleanShape_def)

lemma cleanStep_shape:
  assumes "cleanShape r S" and "Slash \<notin> set e"
  shows "cleanShape r (cleanStep r S e)"
proof -
  obtain k N where kn: "S = replicate k ''..'' @ N" "list_all normalElem N" "r \<longrightarrow> k = 0"
    using cleanShape_split[OF assms(1)] by blast
  consider (skip) "e = [] \<or> e = ''.''" | (dd) "e = ''..''" | (norm) "normalElem e"
    using assms(2) by (auto simp: normalElem_def)
  then show ?thesis
  proof cases
    case skip
    then show ?thesis using assms(1) by (auto simp: cleanStep_def)
  next
    case norm
    then have "cleanStep r S e = replicate k ''..'' @ (N @ [e])"
      using kn by (auto simp: cleanStep_def normalElem_def)
    moreover have "list_all normalElem (N @ [e])" using kn norm by simp
    ultimately show ?thesis using cleanShapeI[of "N @ [e]" r k] kn(3) by simp
  next
    case dd
    show ?thesis
    proof (cases "N = []")
      case True
      then have S: "S = replicate k ''..''" using kn by simp
      have nl: "\<not> (S \<noteq> [] \<and> last S \<noteq> ''..'')" using S by (cases k) auto
      show ?thesis
      proof (cases r)
        case True
        then show ?thesis using dd nl assms(1) by (auto simp: cleanStep_def)
      next
        case False
        then have "cleanStep r S e = replicate (Suc k) ''..'' @ []"
          using dd nl S by (auto simp: cleanStep_def replicate_append_same)
        then show ?thesis using cleanShapeI[of "[]" r "Suc k"] False by simp
      qed
    next
      case False
      then have l: "S \<noteq> [] \<and> last S \<noteq> ''..''"
        using kn by (auto simp: normalElem_def list_all_iff dest: last_in_set)
      then have "cleanStep r S e = replicate k ''..'' @ butlast N"
        using dd kn False by (simp add: cleanStep_def butlast_append)
      moreover have "list_all normalElem (butlast N)"
        using kn by (auto simp: list_all_iff dest: in_set_butlastD)
      ultimately show ?thesis using cleanShapeI[of "butlast N" r k] kn(3) by simp
    qed
  qed
qed

lemma foldl_cleanStep_keeps_shape:
  "cleanShape r S \<Longrightarrow> \<forall>e \<in> set es. Slash \<notin> set e \<Longrightarrow> cleanShape r (foldl (cleanStep r) S es)"
  by (induction es arbitrary: S) (auto simp: cleanStep_shape)

lemma cleanOut_shape: "cleanShape (isRooted path) (cleanOut path)"
  unfolding cleanOut_def
  by (rule foldl_cleanStep_keeps_shape) (auto dest: splitSlash_elems_nosep)


lemma cleanShape_elems:
  assumes "cleanShape r S" and "e \<in> set S"
  shows "e \<noteq> [] \<and> Slash \<notin> set e \<and> e \<noteq> ''.''"
proof -
  obtain k N where kn: "S = replicate k ''..'' @ N" "list_all normalElem N"
    using cleanShape_split[OF assms(1)] by blast
  then have "e = ''..'' \<or> normalElem e" using assms(2) by (auto simp: list_all_iff)
  then show ?thesis by (auto simp: normalElem_def Slash_def)
qed

lemma cleanShape_rooted_normal: "cleanShape True S \<Longrightarrow> list_all normalElem S"
  by (simp add: cleanShape_def)

lemma cleanShape_append_normal:
  assumes "cleanShape r S" and "list_all normalElem F"
  shows "cleanShape r (S @ F)"
proof -
  have "foldl (cleanStep r) S F = S @ F" using assms(2) by (rule foldl_cleanStep_normal)
  moreover have "cleanShape r (foldl (cleanStep r) S F)"
    using assms by (intro foldl_cleanStep_keeps_shape) (auto simp: list_all_iff normalElem_def)
  ultimately show ?thesis by simp
qed

lemma joinSlash_eq_Nil: "joinSlash S = [] \<Longrightarrow> S = [] \<or> S = [[]]"
  by (induction S rule: joinSlash.induct) auto

lemma hd_joinSlash: "S \<noteq> [] \<Longrightarrow> hd S \<noteq> [] \<Longrightarrow> hd (joinSlash S) = hd (hd S)"
  by (induction S rule: joinSlash.induct) auto

lemma joinSlash_shape_ne: "cleanShape r S \<Longrightarrow> S \<noteq> [] \<Longrightarrow> joinSlash S \<noteq> []"
  using cleanShape_elems[of r S "hd S"] joinSlash_eq_Nil[of S] by (cases S) auto

lemma joinSlash_shape_unrooted:
  assumes "cleanShape r S" and "S \<noteq> []"
  shows "\<not> isRooted (joinSlash S)"
proof -
  have h: "hd S \<noteq> [] \<and> Slash \<notin> set (hd S)"
    using cleanShape_elems[OF assms(1), of "hd S"] assms(2) by simp
  then have "hd (joinSlash S) = hd (hd S)" using assms(2) by (simp add: hd_joinSlash)
  moreover have "hd (hd S) \<noteq> Slash" using h by (cases "hd S") auto
  ultimately show ?thesis by (simp add: isRooted_def)
qed

lemma splitSlash_joinSlash_shape:
  "cleanShape r S \<Longrightarrow> S \<noteq> [] \<Longrightarrow> splitSlash (joinSlash S) = S"
  by (rule splitSlash_joinSlash) (auto dest: cleanShape_elems)

lemma isRooted_render: "cleanShape r S \<Longrightarrow> isRooted (render r S) = r"
  using joinSlash_shape_unrooted[of r S]
  by (auto simp: render_def isRooted_def Slash_def)

lemma cleanOut_render:
  assumes "cleanShape r S"
  shows "cleanOut (render r S) = S"
proof (cases r)
  case True
  have n: "list_all normalElem S" using assms True by (simp add: cleanShape_rooted_normal)
  have r: "isRooted (render r S)" using assms True by (simp add: isRooted_render)
  have "splitSlash (render r S) = [] # splitSlash (joinSlash S)"
    using True by (simp add: render_def)
  moreover have "foldl (cleanStep True) [] (splitSlash (joinSlash S)) = S"
  proof (cases "S = []")
    case True
    then show ?thesis by (simp add: cleanStep_def)
  next
    case False
    then show ?thesis
      using splitSlash_joinSlash_shape[OF assms False] foldl_cleanStep_normal[OF n, of True "[]"]
      by simp
  qed
  ultimately show ?thesis using r True by (simp add: cleanOut_def cleanStep_def)
next
  case False
  have r: "\<not> isRooted (render r S)" using assms False by (simp add: isRooted_render)
  show ?thesis
  proof (cases "S = []")
    case True
    then show ?thesis using False by (simp add: cleanOut_def render_def isRooted_def cleanStep_def Slash_def)
  next
    case ne: False
    then have "splitSlash (render r S) = S"
      using False splitSlash_joinSlash_shape[OF assms ne] by (simp add: render_def)
    then show ?thesis
      using r False foldl_cleanStep_shape[OF assms] by (simp add: cleanOut_def)
  qed
qed

lemma Clean_render_id: "cleanShape r S \<Longrightarrow> Clean unix (render r S) = render r S"
  by (simp add: Clean_render isRooted_render cleanOut_render)

lemma Clean_idem: "Clean unix (Clean unix path) = Clean unix path"
  by (simp add: Clean_render[of path] Clean_render_id cleanOut_shape)

lemma isRooted_append: "d \<noteq> [] \<Longrightarrow> isRooted (d @ s) = isRooted d"
  by (cases d) (auto simp: isRooted_def)

lemma cleanOut_append_sep:
  "d \<noteq> [] \<Longrightarrow> cleanOut (d @ Slash # s) = foldl (cleanStep (isRooted d)) (cleanOut d) (splitSlash s)"
  by (simp add: cleanOut_def isRooted_append splitSlash_append_sep)

lemma Clean_append_sep:
  "d \<noteq> [] \<Longrightarrow> Clean unix (d @ Slash # s)
     = render (isRooted d) (foldl (cleanStep (isRooted d)) (cleanOut d) (splitSlash s))"
  by (simp add: Clean_render cleanOut_append_sep isRooted_append)

lemma normal_nosep: "list_all normalElem F \<Longrightarrow> \<forall>x \<in> set F. Slash \<notin> set x"
  by (auto simp: list_all_iff normalElem_def)

lemma cleanShape_normal: "list_all normalElem F \<Longrightarrow> cleanShape r F"
  using cleanShape_append_normal[of r "[]" F] by simp

text \<open>Joining a directory with ordinary elements appends them to the cleaned directory.\<close>

lemma Join_normal:
  assumes "list_all normalElem F" and "F \<noteq> []"
  shows "Join unix (d # F) = render (isRooted d) (cleanOut d @ F)"
proof (cases "d = []")
  case True
  have hdF: "hd F \<noteq> []" using assms by (cases F) (auto simp: normalElem_def)
  then have "dropWhile (\<lambda>e. e = []) (d # F) = F" using True assms(2) by (cases F) auto
  then have "Join unix (d # F) = Clean unix (joinSlash F)" using assms(2) by (cases F) (auto simp: Join_unix)
  moreover have "joinSlash F = render False F" using assms(2) by (simp add: render_def)
  moreover have "Clean unix (render False F) = render False F"
    using assms(1) by (simp add: Clean_render_id cleanShape_normal)
  moreover have "cleanOut d = []" "\<not> isRooted d"
    using True by (simp_all add: cleanOut_def isRooted_def cleanStep_def)
  ultimately show ?thesis by simp
next
  case False
  then have "Join unix (d # F) = Clean unix (joinSlash (d # F))" by (simp add: Join_unix)
  also have "joinSlash (d # F) = d @ Slash # joinSlash F" using assms(2) by (simp add: joinSlash_Cons)
  also have "Clean unix (d @ Slash # joinSlash F)
      = render (isRooted d) (foldl (cleanStep (isRooted d)) (cleanOut d) (splitSlash (joinSlash F)))"
    using False by (rule Clean_append_sep)
  also have "splitSlash (joinSlash F) = F"
    using assms by (intro splitSlash_joinSlash) (auto dest: normal_nosep)
  also have "foldl (cleanStep (isRooted d)) (cleanOut d) F = cleanOut d @ F"
    using assms(1) by (rule foldl_cleanStep_normal)
  finally show ?thesis .
qed


lemma relLoop_Nil [simp]: "relLoop unix [] t = ([], t, [])" "relLoop unix b [] = (b, [], [])"
  by (simp_all add: relLoop_unix)

lemma takeWhile_elem:
  "Slash \<notin> set s \<Longrightarrow> takeWhile (\<lambda>c. c \<noteq> Slash) (s @ Slash # x) = s"
  by (induction s) auto

lemma takeWhile_whole:
  "Slash \<notin> set s \<Longrightarrow> takeWhile (\<lambda>c. c \<noteq> Slash) s = s"
  by (induction s) auto

lemma relLoop_step_same:
  assumes "Slash \<notin> set s" and "s \<noteq> []"
  shows "relLoop unix (s @ Slash # x) (s @ Slash # y) = relLoop unix x y"
  using assms by (subst relLoop_unix) (simp add: takeWhile_elem Let_def)

lemma relLoop_last_same:
  assumes "Slash \<notin> set s" and "s \<noteq> []"
  shows "relLoop unix s (s @ Slash # y) = ([], y, [])"
  using assms by (subst relLoop_unix) (simp add: takeWhile_elem takeWhile_whole Let_def)

lemma relLoop_prefix:
  assumes "\<forall>e \<in> set S. e \<noteq> [] \<and> Slash \<notin> set e" and "S \<noteq> []" and "F \<noteq> []"
  shows "relLoop unix (joinSlash S) (joinSlash (S @ F)) = ([], joinSlash F, [])"
  using assms
proof (induction S rule: joinSlash.induct)
  case 1
  then show ?case by simp
next
  case (2 x)
  then show ?case by (simp add: joinSlash_Cons relLoop_last_same)
next
  case (3 x y ys)
  then show ?case by (simp add: relLoop_step_same)
qed

lemma relLoop_root: "relLoop unix (Slash # x) (Slash # y) = relLoop unix x y"
  by (subst relLoop_unix) (simp add: Let_def)

lemma splitSlash_dot: "splitSlash ''.'' = [''.'']"
  by (simp add: Slash_def)

lemma render_append_ne:
  assumes "cleanShape r S" and "list_all normalElem F" and "F \<noteq> []"
  shows "render r (S @ F) \<noteq> render r S"
proof (cases "S = []")
  case True
  have "splitSlash (joinSlash F) = F" using assms by (intro splitSlash_joinSlash) (auto dest: normal_nosep)
  moreover have "F \<noteq> [''.''] \<and> F \<noteq> [[]]" using assms(2) by (auto simp: normalElem_def)
  ultimately have "joinSlash F \<noteq> ''.'' \<and> joinSlash F \<noteq> []"
    using splitSlash_dot by force
  then show ?thesis using True assms(3) by (auto simp: render_def)
next
  case False
  then have "joinSlash (S @ F) = joinSlash S @ Slash # joinSlash F"
    using assms(3) by (simp add: joinSlash_append)
  then show ?thesis using False by (auto simp: render_def)
qed

lemma Rel_Join_normal:
  assumes "list_all normalElem F" and "F \<noteq> []"
  shows "Rel unix d (Join unix (d # F)) = (joinSlash F, None)"
proof -
  let ?r = "isRooted d" and ?S = "cleanOut d"
  have sh: "cleanShape ?r ?S" by (rule cleanOut_shape)
  have shF: "cleanShape ?r (?S @ F)" using sh assms(1) by (rule cleanShape_append_normal)
  have base: "Clean unix d = render ?r ?S" by (rule Clean_render)
  have targ: "Clean unix (Join unix (d # F)) = render ?r (?S @ F)"
    using assms shF by (simp add: Join_normal Clean_render_id)
  have ne: "render ?r (?S @ F) \<noteq> render ?r ?S" using sh assms by (rule render_append_ne)
  have jF: "joinSlash F \<noteq> []"
    using joinSlash_shape_ne[OF cleanShape_normal[OF assms(1)] assms(2)] .
  have el: "\<forall>e \<in> set ?S. e \<noteq> [] \<and> Slash \<notin> set e" using cleanShape_elems[OF sh] by blast
  show ?thesis
  proof (cases ?r)
    case True
    have loop: "relLoop unix (render ?r ?S) (render ?r (?S @ F)) = ([], joinSlash F, [])"
    proof (cases "?S = []")
      case e: True
      then show ?thesis using True by (simp add: render_def relLoop_root)
    next
      case e: False
      then show ?thesis using True relLoop_prefix[OF el e assms(2)] by (simp add: render_def relLoop_root)
    qed
    have "render ?r ?S \<noteq> ''.''" using True by (simp add: render_def Slash_def)
    moreover have "isRooted (render ?r ?S)" "isRooted (render ?r (?S @ F))"
      using True sh shF by (simp_all add: isRooted_render)
    ultimately show ?thesis
      using ne loop unfolding Rel_unix base targ by (simp add: Let_def isRooted_def)
  next
    case False
    have nr: "\<not> isRooted (render ?r (?S @ F))" using False shF by (simp add: isRooted_render)
    show ?thesis
    proof (cases "?S = []")
      case e: True
      then have "render ?r ?S = ''.''" using False by (simp add: render_def)
      moreover have "render ?r (?S @ F) = joinSlash F" using e False assms(2) by (simp add: render_def)
      ultimately show ?thesis
        using ne nr unfolding Rel_unix base targ by (simp add: Let_def isRooted_def)
    next
      case e: False
      have b: "render ?r ?S = joinSlash ?S" "render ?r (?S @ F) = joinSlash (?S @ F)"
        using e False by (simp_all add: render_def)
      have "splitSlash (joinSlash ?S) = ?S" using sh e by (rule splitSlash_joinSlash_shape)
      moreover have "?S \<noteq> [''.'']" using cleanShape_elems[OF sh, of "''.''"] by auto
      ultimately have nd: "joinSlash ?S \<noteq> ''.''"
        using splitSlash_dot by force
      have nb: "\<not> isRooted (joinSlash ?S)" using sh e by (rule joinSlash_shape_unrooted)
      show ?thesis
        using ne nr nb nd relLoop_prefix[OF el e assms(2)] unfolding Rel_unix base targ b
        by (simp add: Let_def isRooted_def)
    qed
  qed
qed

section \<open>Properties of the tree and of the two loops\<close>

lemma normal_consts [simp]:
  "normalElem chartFileName" "normalElem valuesFileName" "normalElem templatesDirName"
  by (simp_all add: normalElem_def chartFileName_def valuesFileName_def templatesDirName_def Slash_def)

lemma readFile_Join_normal:
  assumes "list_all normalElem F" and "F \<noteq> []"
  shows "readFile unix chart (Join unix (d # F)) d =
     (case ReadFile chart (Join unix (d # F)) of
        (bytes, Some err) \<Rightarrow> (None, Some err)
      | (bytes, None) \<Rightarrow> (Some \<lparr>Name = joinSlash F, Data = bytes\<rparr>, None))"
  by (simp add: readFile_def Rel_Join_normal[OF assms] split: prod.splits option.splits)

lemma readTemplates_error_nil:
  "snd (readTemplates unix chart d dirs acc) = Some e \<Longrightarrow> fst (readTemplates unix chart d dirs acc) = []"
  by (induction dirs arbitrary: acc) (auto split: prod.splits option.splits if_splits)















lemma Join_not_dot:
  assumes "list_all normalElem F" and "F \<noteq> []"
  shows "Join unix (d # F) \<noteq> ''.''"
proof -
  have "render (isRooted d) (cleanOut d @ F) \<noteq> render (isRooted d) (cleanOut d)"
    using cleanOut_shape assms by (rule render_append_ne)
  moreover have "render False [] = ''.''" by (simp add: render_def)
  moreover have "render True S \<noteq> ''.''" for S by (simp add: render_def Slash_def)
  moreover have "render False (cleanOut d @ F) = ''.'' \<Longrightarrow> False"
  proof -
    assume a: "render False (cleanOut d @ F) = ''.''"
    have sh: "cleanShape False (cleanOut d @ F)"
      using cleanOut_shape[of d] assms(1) cleanShape_append_normal[of "isRooted d" "cleanOut d" F]
      by (cases "isRooted d") (auto simp: cleanShape_def)
    have "cleanOut (render False (cleanOut d @ F)) = cleanOut d @ F" using sh by (rule cleanOut_render)
    moreover have "cleanOut ''.'' = []" by (simp add: cleanOut_def cleanStep_def isRooted_def Slash_def)
    ultimately show False using a assms(2) by simp
  qed
  ultimately show ?thesis using assms by (cases "isRooted d") (auto simp: Join_normal)
qed




lemma readRequired_two:
  "readRequired unix chart d [chartFileName, valuesFileName] [] =
     (case ReadFile chart (Join unix [d, chartFileName]) of
        (b1, Some e) \<Rightarrow> ([], Some e)
      | (b1, None) \<Rightarrow>
          (case ReadFile chart (Join unix [d, valuesFileName]) of
             (b2, Some e) \<Rightarrow> ([], Some e)
           | (b2, None) \<Rightarrow>
               ([Some \<lparr>Name = chartFileName, Data = b1\<rparr>,
                 Some \<lparr>Name = valuesFileName, Data = b2\<rparr>], None)))"
proof -
  obtain b1 e1 where r1: "ReadFile chart (Join unix [d, chartFileName]) = (b1, e1)" by fastforce
  obtain b2 e2 where r2: "ReadFile chart (Join unix [d, valuesFileName]) = (b2, e2)" by fastforce
  have f1: "readFile unix chart (Join unix [d, chartFileName]) d =
      (case e1 of Some err \<Rightarrow> (None, Some err)
       | None \<Rightarrow> (Some \<lparr>Name = chartFileName, Data = b1\<rparr>, None))"
    using readFile_Join_normal[of "[chartFileName]" chart d] r1 by simp
  have f2: "readFile unix chart (Join unix [d, valuesFileName]) d =
      (case e2 of Some err \<Rightarrow> (None, Some err)
       | None \<Rightarrow> (Some \<lparr>Name = valuesFileName, Data = b2\<rparr>, None))"
    using readFile_Join_normal[of "[valuesFileName]" chart d] r2 by simp
  show ?thesis by (cases e1; cases e2; simp add: r1 r2 f1 f2)
qed

lemma readChartFiles_unfold:
  "readChartFiles unix chart d =
     (case ReadFile chart (Join unix [d, chartFileName]) of
        (b1, Some e) \<Rightarrow> ([], Some e)
      | (b1, None) \<Rightarrow>
          (case ReadFile chart (Join unix [d, valuesFileName]) of
             (b2, Some e) \<Rightarrow> ([], Some e)
           | (b2, None) \<Rightarrow>
               (case ReadDir chart (Join unix [d, templatesDirName]) of
                  (dirs, Some e) \<Rightarrow> ([], Some e)
                | (dirs, None) \<Rightarrow>
                    readTemplates unix chart d dirs
                      [Some \<lparr>Name = chartFileName, Data = b1\<rparr>,
                       Some \<lparr>Name = valuesFileName, Data = b2\<rparr>])))"
proof -
  obtain b1 e1 where r1: "ReadFile chart (Join unix [d, chartFileName]) = (b1, e1)" by fastforce
  obtain b2 e2 where r2: "ReadFile chart (Join unix [d, valuesFileName]) = (b2, e2)" by fastforce
  obtain ds e3 where r3: "ReadDir chart (Join unix [d, templatesDirName]) = (ds, e3)" by fastforce
  show ?thesis
    unfolding readChartFiles_def readRequired_two
    by (cases e1; cases e2; cases e3; simp add: r1 r2 r3)
qed

lemma readChartFiles_error_nil:
  "snd (readChartFiles unix chart d) = Some e \<Longrightarrow> fst (readChartFiles unix chart d) = []"
proof -
  obtain b1 e1 where r1: "ReadFile chart (Join unix [d, chartFileName]) = (b1, e1)" by fastforce
  obtain b2 e2 where r2: "ReadFile chart (Join unix [d, valuesFileName]) = (b2, e2)" by fastforce
  obtain ds e3 where r3: "ReadDir chart (Join unix [d, templatesDirName]) = (ds, e3)" by fastforce
  assume "snd (readChartFiles unix chart d) = Some e"
  then show ?thesis
    unfolding readChartFiles_unfold
    by (cases e1; cases e2; cases e3; simp add: r1 r2 r3 readTemplates_error_nil)
qed





section \<open>Relativising a joined path never fails\<close>


lemma hd_splitSlash: "hd (splitSlash b) = takeWhile (\<lambda>c. c \<noteq> Slash) b"
  by (induction b) (auto split: list.splits)

lemma splitSlash_drop_elem:
  "set (splitSlash (drop (Suc (length (takeWhile (\<lambda>c. c \<noteq> Slash) b))) b))
     \<subseteq> insert [] (set (splitSlash b))"
proof (cases "Slash \<in> set b")
  case False
  have "drop (Suc (length (takeWhile (\<lambda>c. c \<noteq> Slash) b))) b = []"
    by (simp add: takeWhile_whole[OF False])
  then show ?thesis by (simp only: splitSlash.simps list.set insert_subset insertI1 empty_subsetI simp_thms)
next
  case True
  then obtain x y where b: "b = x @ Slash # y" "Slash \<notin> set x"
    by (meson split_list_first)
  then have "takeWhile (\<lambda>c. c \<noteq> Slash) b = x" by (simp add: takeWhile_elem)
  then show ?thesis using b by (auto simp: splitSlash_append_sep)
qed

lemma relLoop_belem_mem:
  "snd (snd (relLoop unix b t)) \<in> insert [] (set (splitSlash b))"
proof (induction "length b" arbitrary: b t rule: less_induct)
  case less
  show ?case
  proof (cases "b \<noteq> [] \<and> t \<noteq> []")
    case False
    then have "relLoop unix b t = (b, t, [])" by (subst relLoop_unix) auto
    then show ?thesis by simp
  next
    case ne: True
    let ?be = "takeWhile (\<lambda>c. c \<noteq> Slash) b"
    let ?te = "takeWhile (\<lambda>c. c \<noteq> Slash) t"
    show ?thesis
    proof (cases "?te = ?be")
      case False
      then have "relLoop unix b t = (b, t, ?be)" using ne by (subst relLoop_unix) (simp add: Let_def)
      moreover have "?be \<in> set (splitSlash b)"
        using hd_splitSlash[of b] hd_in_set[OF splitSlash_ne, of b] by simp
      ultimately show ?thesis by simp
    next
      case True
      then have "relLoop unix b t = relLoop unix (drop (Suc (length ?be)) b) (drop (Suc (length ?te)) t)"
        using ne by (subst relLoop_unix) (simp add: Let_def)
      moreover have "snd (snd (relLoop unix (drop (Suc (length ?be)) b) (drop (Suc (length ?te)) t)))
          \<in> insert [] (set (splitSlash (drop (Suc (length ?be)) b)))"
        using ne by (intro less.hyps) auto
      ultimately show ?thesis using splitSlash_drop_elem[of b] by auto
    qed
  qed
qed

lemma relLoop_dotdot_both: "relLoop unix ''..'' ''..'' = ([], [], [])"
  by (subst relLoop_unix) (simp add: Slash_def Let_def)

lemma relLoop_dotdot_left: "relLoop unix (''..'' @ Slash # y) ''..'' = (y, [], [])"
  by (subst relLoop_unix) (simp add: Slash_def Let_def)

lemma relLoop_dotdots:
  assumes "list_all normalElem N"
  shows "snd (snd (relLoop unix (joinSlash (replicate k ''..'' @ N)) (joinSlash (replicate k ''..'' @ T)))) \<noteq> ''..''"
proof (induction k)
  case 0
  have "snd (snd (relLoop unix (joinSlash N) (joinSlash T))) \<in> insert [] (set (splitSlash (joinSlash N)))"
    by (rule relLoop_belem_mem)
  moreover have "set (splitSlash (joinSlash N)) \<subseteq> insert [] (set N)"
  proof (cases "N = []")
    case True
    then show ?thesis by simp
  next
    case False
    then show ?thesis using assms splitSlash_joinSlash[of N] by (auto dest: normal_nosep)
  qed
  moreover have "''..'' \<notin> insert [] (set N)" using assms by (auto simp: list_all_iff normalElem_def)
  ultimately show ?case by auto
next
  case (Suc k)
  let ?b = "replicate k ''..'' @ N" and ?t = "replicate k ''..'' @ T"
  have dd: "Slash \<notin> set ''..''" "''..'' \<noteq> []" by (simp_all add: Slash_def)
  show ?case
  proof (cases "?b = []")
    case bn: True
    show ?thesis
    proof (cases "?t = []")
      case True
      then show ?thesis using bn relLoop_dotdot_both by simp
    next
      case False
      then have "joinSlash (''..'' # ?t) = ''..'' @ Slash # joinSlash ?t" by (rule joinSlash_Cons)
      then show ?thesis using bn relLoop_last_same[OF dd, of "joinSlash ?t"] by simp
    qed
  next
    case bne: False
    then have jb: "joinSlash (''..'' # ?b) = ''..'' @ Slash # joinSlash ?b" by (rule joinSlash_Cons)
    show ?thesis
    proof (cases "?t = []")
      case True
      then show ?thesis using jb relLoop_dotdot_left[of "joinSlash ?b"] by simp
    next
      case False
      then have "joinSlash (''..'' # ?t) = ''..'' @ Slash # joinSlash ?t" by (rule joinSlash_Cons)
      then show ?thesis
        using jb relLoop_step_same[OF dd, of "joinSlash ?b" "joinSlash ?t"] Suc.IH by simp
    qed
  qed
qed

lemma cleanStep_keeps_dotdots:
  "\<exists>X'. cleanStep r (replicate k ''..'' @ X) e = replicate k ''..'' @ X'"
proof (cases "X = []")
  case True
  have "\<not> (replicate k ''..'' \<noteq> [] \<and> last (replicate k ''..'') \<noteq> ''..'')" by (cases k) auto
  then show ?thesis using True by (auto simp: cleanStep_def)
next
  case False
  then have "butlast (replicate k ''..'' @ X) = replicate k ''..'' @ butlast X"
    by (simp add: butlast_append)
  then show ?thesis by (auto simp: cleanStep_def)
qed

lemma foldl_cleanStep_keeps_dotdots:
  "\<exists>X'. foldl (cleanStep r) (replicate k ''..'' @ X) es = replicate k ''..'' @ X'"
proof (induction es arbitrary: X)
  case Nil
  then show ?case by simp
next
  case (Cons e es)
  obtain X1 where "cleanStep r (replicate k ''..'' @ X) e = replicate k ''..'' @ X1"
    using cleanStep_keeps_dotdots by blast
  then show ?case using Cons[of X1] by simp
qed


lemma joinSlash_shape_not_dot:
  assumes "cleanShape r S" and "S \<noteq> []"
  shows "joinSlash S \<noteq> ''.''"
proof
  assume a: "joinSlash S = ''.''"
  have "splitSlash (joinSlash S) = [''.'']" unfolding a by (rule splitSlash_dot)
  then have "S = [''.'']" using splitSlash_joinSlash_shape[OF assms] by simp
  then show False using cleanShape_elems[OF assms(1), of "''.''"] by simp
qed

lemma Rel_render_no_error:
  assumes sS: "cleanShape r S" and sT: "cleanShape r T"
    and pre: "S = replicate k ''..'' @ N" "list_all normalElem N" "T = replicate k ''..'' @ X"
    and cb: "Clean unix base = render r S" and ct: "Clean unix targ = render r T"
  shows "snd (Rel unix base targ) = None"
proof (cases "render r T = render r S")
  case True
  then show ?thesis by (simp add: Rel_unix cb ct)
next
  case ne: False
  have loop: "snd (snd (relLoop unix (joinSlash S) (joinSlash T'))) \<noteq> ''..''"
    if "T' = replicate k ''..'' @ X'" for T' X'
    using relLoop_dotdots[OF pre(2), of k X'] pre(1) that by simp
  have fin: "snd (case relLoop unix b t of
                   (brest, trest, belem) \<Rightarrow>
                     if belem = ''..'' then ([], Some (RelError targ base))
                     else if brest \<noteq> [] then
                       let seps = count_list brest Slash
                       in (''..'' @ concat (replicate seps (Slash # ''..''))
                             @ (if trest \<noteq> [] then Slash # trest else []), None)
                     else (trest, None)) = None"
    if "snd (snd (relLoop unix b t)) \<noteq> ''..''" for b t
    using that by (cases "relLoop unix b t") (auto simp: Let_def)
  show ?thesis
  proof (cases r)
    case True
    have b: "render r S = Slash # joinSlash S" "render r T = Slash # joinSlash T"
      using True by (simp_all add: render_def)
    have "render r S \<noteq> ''.''" using b by (simp add: Slash_def)
    moreover have "snd (snd (relLoop unix (Slash # joinSlash S) (Slash # joinSlash T))) \<noteq> ''..''"
      using loop[OF pre(3)] by (simp add: relLoop_root)
    ultimately show ?thesis
      using ne fin[of "Slash # joinSlash S" "Slash # joinSlash T"]
      unfolding Rel_unix cb ct b by (simp add: Let_def)
  next
    case False
    have tr: "\<not> isRooted (render r T)" using sT False by (simp add: isRooted_render)
    show ?thesis
    proof (cases "S = []")
      case True
      then have "render r S = ''.''" using False by (simp add: render_def)
      then show ?thesis
        using ne tr fin[of "[]" "render r T"]
        unfolding Rel_unix cb ct by (simp add: Let_def isRooted_def)
    next
      case sne: False
      have b: "render r S = joinSlash S" using False sne by (simp add: render_def)
      have nd: "joinSlash S \<noteq> ''.''" using sS sne by (rule joinSlash_shape_not_dot)
      have br: "\<not> isRooted (joinSlash S)" using sS sne by (rule joinSlash_shape_unrooted)
      have "\<exists>T' X'. render r T = joinSlash T' \<and> T' = replicate k ''..'' @ X'"
      proof (cases "T = []")
        case True
        then have "k = 0" using pre(3) by simp
        moreover have "render r T = joinSlash [''.'']" using True False by (simp add: render_def)
        ultimately show ?thesis by (metis append_Nil replicate_0)
      next
        case False
        then have "render r T = joinSlash T" using \<open>\<not> r\<close> by (simp add: render_def)
        then show ?thesis using pre(3) by blast
      qed
      then obtain T' X' where t: "render r T = joinSlash T'" "T' = replicate k ''..'' @ X'" by blast
      have "snd (snd (relLoop unix (joinSlash S) (render r T))) \<noteq> ''..''"
        using loop[OF t(2)] t(1) by simp
      then show ?thesis
        using ne tr br nd fin[of "joinSlash S" "render r T"]
        unfolding Rel_unix cb ct b by (simp add: Let_def isRooted_def)
    qed
  qed
qed

lemma Rel_Join_no_error:
  assumes "\<not> isRooted s"
  shows "snd (Rel unix d (Join unix [d, s])) = None"
proof (cases "d = []")
  case dn: True
  show ?thesis
  proof (cases "s = []")
    case True
    then show ?thesis using dn by (simp add: Join_unix Rel_unix)
  next
    case False
    then have j: "Join unix [d, s] = Clean unix s" using dn by (simp add: Join_unix)
    have cb: "Clean unix d = render False []" using dn by (simp add: Clean_unix render_def)
    have "Clean unix s = render False (cleanOut s)" using assms Clean_render[of s] by simp
    then have ct: "Clean unix (Join unix [d, s]) = render False (cleanOut s)"
      unfolding j Clean_idem .
    have sh: "cleanShape False (cleanOut s)" using cleanOut_shape[of s] assms by simp
    show ?thesis
      using Rel_render_no_error[of False "[]" "cleanOut s" 0 "[]" "cleanOut s" d "Join unix [d, s]"]
        sh cb ct by simp
  qed
next
  case False
  let ?r = "isRooted d"
  let ?T = "foldl (cleanStep ?r) (cleanOut d) (splitSlash s)"
  have j: "Join unix [d, s] = render ?r ?T"
    using False by (simp add: Join_unix Clean_append_sep)
  have sS: "cleanShape ?r (cleanOut d)" by (rule cleanOut_shape)
  have sT: "cleanShape ?r ?T"
    using sS by (rule foldl_cleanStep_keeps_shape) (auto dest: splitSlash_elems_nosep)
  obtain k N where kn: "cleanOut d = replicate k ''..'' @ N" "list_all normalElem N"
    using cleanShape_split[OF sS] by blast
  obtain X where x: "?T = replicate k ''..'' @ X"
    using foldl_cleanStep_keeps_dotdots[of ?r k N "splitSlash s"] kn(1) by auto
  have cb: "Clean unix d = render ?r (cleanOut d)" by (rule Clean_render)
  have ct: "Clean unix (Join unix [d, s]) = render ?r ?T" using sT by (simp add: j Clean_render_id)
  show ?thesis using sS sT kn x cb ct by (rule Rel_render_no_error)
qed

lemma Join_templates:
  "Join unix [d, templatesDirName, n] = Join unix [d, templatesDirName @ Slash # n]"
  by (cases "d = []") (simp_all add: Join_unix templatesDirName_def)

section \<open>The collector\<close>

lemma consts_literal:
  "chartFileName = ''Chart.yaml''" "valuesFileName = ''values.yaml''" "templatesDirName = ''templates''"
  by (simp_all add: chartFileName_def valuesFileName_def templatesDirName_def)

lemma lookup_missing:
  "\<not> list_ex (\<lambda>x. fname x = p) chart \<Longrightarrow> p \<noteq> ''.'' \<Longrightarrow> lookup chart p = None"
  by (simp add: lookup_def list_ex_iff find_None_iff)

lemma ReadFile_missing:
  "\<not> list_ex (\<lambda>x. fname x = p) chart \<Longrightarrow> p \<noteq> ''.'' \<Longrightarrow>
     ReadFile chart p = ([], Some (PathError ''open'' p ErrNotExist))"
  by (simp add: ReadFile_def lookup_missing)









text \<open>
  Claim C3, stated for a Unix build. The two required files are read in the order \<^verbatim>\<open>Chart.yaml\<close>,
  \<^verbatim>\<open>values.yaml\<close>, and the first read that fails ends the call: the result is the
  \<^verbatim>\<open>nil\<close> slice together with the error of that read, whatever the rest of the tree
  holds. When the tree has no file at the path of \<^verbatim>\<open>Chart.yaml\<close>, or has
  \<^verbatim>\<open>Chart.yaml\<close> and no file at the path of \<^verbatim>\<open>values.yaml\<close>, that error is the
  not-exist error of \<^verbatim>\<open>embed.FS\<close> for the missing path. Whenever \<open>readChartFiles\<close>
  returns an error, for whatever reason, the slice it returns is \<^verbatim>\<open>nil\<close>.
\<close>

theorem required_read_failure_aborts:
  "(snd (ReadFile chart (Join unix [chartDirName, ''Chart.yaml''])) = Some err \<longrightarrow>
      readChartFiles unix chart chartDirName = ([], Some err))
   \<and> (snd (ReadFile chart (Join unix [chartDirName, ''Chart.yaml''])) = None
        \<and> snd (ReadFile chart (Join unix [chartDirName, ''values.yaml''])) = Some err \<longrightarrow>
      readChartFiles unix chart chartDirName = ([], Some err))
   \<and> (\<not> list_ex (\<lambda>x. fname x = Join unix [chartDirName, ''Chart.yaml'']) chart \<longrightarrow>
      readChartFiles unix chart chartDirName =
        ([], Some (PathError ''open'' (Join unix [chartDirName, ''Chart.yaml'']) ErrNotExist)))
   \<and> (snd (ReadFile chart (Join unix [chartDirName, ''Chart.yaml''])) = None
        \<and> \<not> list_ex (\<lambda>x. fname x = Join unix [chartDirName, ''values.yaml'']) chart \<longrightarrow>
      readChartFiles unix chart chartDirName =
        ([], Some (PathError ''open'' (Join unix [chartDirName, ''values.yaml'']) ErrNotExist)))
   \<and> (\<not> list_ex (\<lambda>x. fname x = Join unix [chartDirName, ''values.yaml'']) chart \<longrightarrow>
      fst (readChartFiles unix chart chartDirName) = [] \<and> snd (readChartFiles unix chart chartDirName) \<noteq> None)
   \<and> (snd (readChartFiles unix chart chartDirName) \<noteq> None \<longrightarrow>
      fst (readChartFiles unix chart chartDirName) = [])"
proof -
  let ?C = "Join unix [chartDirName, chartFileName]" and ?V = "Join unix [chartDirName, valuesFileName]"
  obtain b1 e1 where r1: "ReadFile chart ?C = (b1, e1)" by fastforce
  obtain b2 e2 where r2: "ReadFile chart ?V = (b2, e2)" by fastforce
  have a: "e1 = Some err \<Longrightarrow> readChartFiles unix chart chartDirName = ([], Some err)"
    unfolding readChartFiles_unfold by (simp add: r1)
  have b: "e1 = None \<Longrightarrow> e2 = Some err \<Longrightarrow> readChartFiles unix chart chartDirName = ([], Some err)"
    unfolding readChartFiles_unfold by (simp add: r1 r2)
  have nc: "?C \<noteq> ''.''" by (rule Join_not_dot) simp_all
  have nv: "?V \<noteq> ''.''" by (rule Join_not_dot) simp_all
  have c: "\<not> list_ex (\<lambda>x. fname x = ?C) chart \<Longrightarrow>
      readChartFiles unix chart chartDirName = ([], Some (PathError ''open'' ?C ErrNotExist))"
    unfolding readChartFiles_unfold using ReadFile_missing[OF _ nc, of chart] by simp
  have d: "e1 = None \<Longrightarrow> \<not> list_ex (\<lambda>x. fname x = ?V) chart \<Longrightarrow>
      readChartFiles unix chart chartDirName = ([], Some (PathError ''open'' ?V ErrNotExist))"
    unfolding readChartFiles_unfold using ReadFile_missing[OF _ nv, of chart] by (simp add: r1)
  have e: "\<not> list_ex (\<lambda>x. fname x = ?V) chart \<Longrightarrow>
      fst (readChartFiles unix chart chartDirName) = [] \<and> snd (readChartFiles unix chart chartDirName) \<noteq> None"
    unfolding readChartFiles_unfold using ReadFile_missing[OF _ nv, of chart]
    by (cases e1) (simp_all add: r1)
  have f: "snd (readChartFiles unix chart chartDirName) \<noteq> None \<Longrightarrow>
      fst (readChartFiles unix chart chartDirName) = []"
    using readChartFiles_error_nil[of chart chartDirName] by auto
  show ?thesis using a b c d e f r1 r2 by (simp add: consts_literal)
qed

theorem required_read_failure_aborts_witness:
  "snd (ReadFile treeWithoutTemplates (Join unix [''charts'', ''Chart.yaml'']))
     = Some (PathError ''open'' ''charts/Chart.yaml'' ErrNotExist)
   \<and> \<not> list_ex (\<lambda>x. fname x = Join unix [''charts'', ''Chart.yaml'']) treeWithoutTemplates
   \<and> readChartFiles unix treeWithoutTemplates ''charts''
       = ([], Some (PathError ''open'' ''charts/Chart.yaml'' ErrNotExist))
   \<and> snd (ReadFile treeWithoutValues (Join unix [''charts/demo'', ''Chart.yaml''])) = None
   \<and> snd (ReadFile treeWithoutValues (Join unix [''charts/demo'', ''values.yaml'']))
       = Some (PathError ''open'' ''charts/demo/values.yaml'' ErrNotExist)
   \<and> \<not> list_ex (\<lambda>x. fname x = Join unix [''charts/demo'', ''values.yaml'']) treeWithoutValues
   \<and> readChartFiles unix treeWithoutValues ''charts/demo''
       = ([], Some (PathError ''open'' ''charts/demo/values.yaml'' ErrNotExist))"
proof -
  have c1: "snd (ReadFile treeWithoutTemplates (Join unix [''charts'', ''Chart.yaml'']))
     = Some (PathError ''open'' ''charts/Chart.yaml'' ErrNotExist)" by code_simp
  have c2: "\<not> list_ex (\<lambda>x. fname x = Join unix [''charts'', ''Chart.yaml'']) treeWithoutTemplates"
    by code_simp
  have v1: "snd (ReadFile treeWithoutValues (Join unix [''charts/demo'', ''Chart.yaml''])) = None"
    by code_simp
  have v2: "snd (ReadFile treeWithoutValues (Join unix [''charts/demo'', ''values.yaml'']))
       = Some (PathError ''open'' ''charts/demo/values.yaml'' ErrNotExist)" by code_simp
  have v3: "\<not> list_ex (\<lambda>x. fname x = Join unix [''charts/demo'', ''values.yaml'']) treeWithoutValues"
    by code_simp
  show ?thesis
    using c1 c2 v1 v2 v3
      required_read_failure_aborts[of treeWithoutTemplates "''charts''"
        "PathError ''open'' ''charts/Chart.yaml'' ErrNotExist"]
      required_read_failure_aborts[of treeWithoutValues "''charts/demo''"
        "PathError ''open'' ''charts/demo/values.yaml'' ErrNotExist"]
    by blast
qed














lemma readFile_error_of_ReadFile:
  "snd (Rel unix p f) = None \<Longrightarrow> snd (readFile unix chart f p) = snd (ReadFile chart f)"
  by (cases "ReadFile chart f"; cases "Rel unix p f") (auto simp: readFile_def split: option.splits)

text \<open>
  Claim C8, stated for a Unix build. For every \<open>chartDirName\<close> and every suffix that does not begin with the
  separator, \<^verbatim>\<open>filepath.Rel\<close> does not fail on \<open>chartDirName\<close> and the join of
  \<open>chartDirName\<close> with the suffix; the same holds for the three-element join that
  \<open>readChartFiles\<close> makes for a template, whatever the name of the directory entry. On
  such a file name \<open>readFile\<close> therefore fails only with the error of the read. The
  branch is nevertheless there: when the read succeeds and \<^verbatim>\<open>filepath.Rel\<close> fails,
  \<open>readFile\<close> returns \<^verbatim>\<open>nil\<close> and the error of \<^verbatim>\<open>filepath.Rel\<close>.
\<close>

theorem rel_error_unreachable:
  "(\<not> isRooted suffix \<longrightarrow>
      snd (Rel unix chartDirName (Join unix [chartDirName, suffix])) = None
      \<and> snd (readFile unix chart (Join unix [chartDirName, suffix]) chartDirName)
          = snd (ReadFile chart (Join unix [chartDirName, suffix])))
   \<and> snd (Rel unix chartDirName (Join unix [chartDirName, ''templates'', n])) = None
   \<and> snd (readFile unix chart (Join unix [chartDirName, ''templates'', n]) chartDirName)
        = snd (ReadFile chart (Join unix [chartDirName, ''templates'', n]))
   \<and> (snd (ReadFile chart filename) = None \<and> snd (Rel unix pathPrefix filename) = Some err \<longrightarrow>
        readFile unix chart filename pathPrefix = (None, Some err))"
proof -
  have a: "snd (Rel unix chartDirName (Join unix [chartDirName, suffix])) = None" if "\<not> isRooted suffix"
    using that by (rule Rel_Join_no_error)
  have "\<not> isRooted (templatesDirName @ Slash # n)"
    by (simp add: isRooted_def templatesDirName_def Slash_def)
  then have b: "snd (Rel unix chartDirName (Join unix [chartDirName, templatesDirName, n])) = None"
    unfolding Join_templates by (rule Rel_Join_no_error)
  have c: "readFile unix chart filename pathPrefix = (None, Some err)"
    if "snd (ReadFile chart filename) = None" "snd (Rel unix pathPrefix filename) = Some err"
    using that
    by (cases "ReadFile chart filename"; cases "Rel unix pathPrefix filename") (simp add: readFile_def)
  show ?thesis
    using a b c readFile_error_of_ReadFile[of chartDirName _ chart]
    by (simp add: consts_literal[symmetric])
qed

theorem rel_error_unreachable_witness:
  "\<not> isRooted ''Chart.yaml''
   \<and> snd (Rel unix ''charts/demo'' (Join unix [''charts/demo'', ''Chart.yaml''])) = None
   \<and> snd (readFile unix demoTree (Join unix [''charts/demo'', ''Chart.yaml'']) ''charts/demo'')
       = snd (ReadFile demoTree (Join unix [''charts/demo'', ''Chart.yaml'']))
   \<and> snd (ReadFile demoTree ''charts/demo/Chart.yaml'') = None
   \<and> snd (Rel unix ''..'' ''charts/demo/Chart.yaml'') = Some (RelError ''charts/demo/Chart.yaml'' ''..'')
   \<and> readFile unix demoTree ''charts/demo/Chart.yaml'' ''..''
       = (None, Some (RelError ''charts/demo/Chart.yaml'' ''..''))"
proof -
  have r: "\<not> isRooted ''Chart.yaml''" by code_simp
  have f: "snd (ReadFile demoTree ''charts/demo/Chart.yaml'') = None" by code_simp
  have e: "snd (Rel unix ''..'' ''charts/demo/Chart.yaml'') = Some (RelError ''charts/demo/Chart.yaml'' ''..'')"
    by code_simp
  show ?thesis
    using r f e
      rel_error_unreachable[of "''Chart.yaml''" "''charts/demo''" demoTree "[]"
        "''charts/demo/Chart.yaml''" "''..''" "RelError ''charts/demo/Chart.yaml'' ''..''"]
    by blast
qed

section \<open>Fetching the values of a release\<close>


text \<open>
  Claim C9. \<open>FetchChartValues\<close> first calls \<^verbatim>\<open>InitActionConfig\<close> for the namespace. When
  that fails it returns \<^verbatim>\<open>nil\<close> and the error, and makes no status query. Otherwise it
  runs the status action once, for the given release name and with the configuration that
  the initialisation returned: when the query fails it returns \<^verbatim>\<open>nil\<close> and the error of
  the query, and when it succeeds it returns the \<open>Config\<close> of the release and no error. In
  every case the calls it adds to the record are the initialisation and then at most one
  status query.
\<close>

theorem fetch_single_status_query:
  "(InitActionConfig h (newConfiguration h) namespace settings uiLogger (world s) = ((cfg, Some e), w1) \<longrightarrow>
      FetchChartValues h namespace name settings uiLogger s
        = (Returns (None, Some e),
           \<lparr>world = w1, calls = calls s @ [CallInitActionConfig namespace]\<rparr>))
   \<and> (InitActionConfig h (newConfiguration h) namespace settings uiLogger (world s) = ((cfg, None), w1)
        \<and> StatusRun h cfg name w1 = ((release, Some e), w2) \<longrightarrow>
      FetchChartValues h namespace name settings uiLogger s
        = (Returns (None, Some e),
           \<lparr>world = w2, calls = calls s @ [CallInitActionConfig namespace, CallStatusRun name]\<rparr>))
   \<and> (InitActionConfig h (newConfiguration h) namespace settings uiLogger (world s) = ((cfg, None), w1)
        \<and> StatusRun h cfg name w1 = ((Some r, None), w2) \<longrightarrow>
      FetchChartValues h namespace name settings uiLogger s
        = (Returns (Config h r, None),
           \<lparr>world = w2, calls = calls s @ [CallInitActionConfig namespace, CallStatusRun name]\<rparr>))
   \<and> (\<exists>rest. calls (snd (FetchChartValues h namespace name settings uiLogger s))
                = calls s @ CallInitActionConfig namespace # rest
              \<and> (rest = [] \<or> rest = [CallStatusRun name]))"
proof (intro conjI impI)
  assume "InitActionConfig h (newConfiguration h) namespace settings uiLogger (world s) = ((cfg, Some e), w1)"
  then show "FetchChartValues h namespace name settings uiLogger s
        = (Returns (None, Some e),
           \<lparr>world = w1, calls = calls s @ [CallInitActionConfig namespace]\<rparr>)"
    by (simp add: FetchChartValues_def)
next
  assume "InitActionConfig h (newConfiguration h) namespace settings uiLogger (world s) = ((cfg, None), w1)
        \<and> StatusRun h cfg name w1 = ((release, Some e), w2)"
  then show "FetchChartValues h namespace name settings uiLogger s
        = (Returns (None, Some e),
           \<lparr>world = w2, calls = calls s @ [CallInitActionConfig namespace, CallStatusRun name]\<rparr>)"
    by (simp add: FetchChartValues_def)
next
  assume "InitActionConfig h (newConfiguration h) namespace settings uiLogger (world s) = ((cfg, None), w1)
        \<and> StatusRun h cfg name w1 = ((Some r, None), w2)"
  then show "FetchChartValues h namespace name settings uiLogger s
        = (Returns (Config h r, None),
           \<lparr>world = w2, calls = calls s @ [CallInitActionConfig namespace, CallStatusRun name]\<rparr>)"
    by (simp add: FetchChartValues_def)
next
  obtain c1 e1 v1 where i: "InitActionConfig h (newConfiguration h) namespace settings uiLogger (world s) = ((c1, e1), v1)"
    by (metis prod.collapse)
  obtain r2 e2 v2 where q: "StatusRun h c1 name v1 = ((r2, e2), v2)"
    by (metis prod.collapse)
  show "\<exists>rest. calls (snd (FetchChartValues h namespace name settings uiLogger s))
                = calls s @ CallInitActionConfig namespace # rest
              \<and> (rest = [] \<or> rest = [CallStatusRun name])"
    by (cases e1; cases e2; cases r2; simp add: FetchChartValues_def i q)
qed

theorem fetch_single_status_query_witness:
  "InitActionConfig demoHelm (newConfiguration demoHelm) ''locked'' () () 0 = ((None, Some ''forbidden''), 0)
   \<and> FetchChartValues demoHelm ''locked'' ''consul'' () () \<lparr>world = 0, calls = []\<rparr>
       = (Returns (None, Some ''forbidden''), \<lparr>world = 0, calls = [CallInitActionConfig ''locked'']\<rparr>)
   \<and> InitActionConfig demoHelm (newConfiguration demoHelm) ''default'' () () 0 = ((Some ''default'', None), 0)
   \<and> StatusRun demoHelm (Some ''default'') ''other'' 0 = ((None, Some ''release: not found''), 1)
   \<and> FetchChartValues demoHelm ''default'' ''other'' () () \<lparr>world = 0, calls = []\<rparr>
       = (Returns (None, Some ''release: not found''),
          \<lparr>world = 1, calls = [CallInitActionConfig ''default'', CallStatusRun ''other'']\<rparr>)
   \<and> StatusRun demoHelm (Some ''default'') ''consul'' 0 = ((Some (''consul'', ''replicas: 3''), None), 1)
   \<and> FetchChartValues demoHelm ''default'' ''consul'' () () \<lparr>world = 0, calls = []\<rparr>
       = (Returns (Some ''replicas: 3'', None),
          \<lparr>world = 1, calls = [CallInitActionConfig ''default'', CallStatusRun ''consul'']\<rparr>)"
proof -
  let ?s = "\<lparr>world = 0::nat, calls = []\<rparr>"
  have i1: "InitActionConfig demoHelm (newConfiguration demoHelm) ''locked'' () () (world ?s)
              = ((None, Some ''forbidden''), 0)"
    by (simp add: demoHelm_def)
  have i2: "InitActionConfig demoHelm (newConfiguration demoHelm) ''default'' () () (world ?s)
              = ((Some ''default'', None), 0)"
    by (simp add: demoHelm_def)
  have q1: "StatusRun demoHelm (Some ''default'') ''other'' 0 = ((None, Some ''release: not found''), 1)"
    by (simp add: demoHelm_def)
  have q2: "StatusRun demoHelm (Some ''default'') ''consul'' 0 = ((Some (''consul'', ''replicas: 3''), None), 1)"
    by (simp add: demoHelm_def)
  have c: "Config demoHelm (''consul'', ''replicas: 3'') = Some ''replicas: 3''"
    by (simp add: demoHelm_def)
  have f1: "FetchChartValues demoHelm ''locked'' ''consul'' () () ?s
       = (Returns (None, Some ''forbidden''), \<lparr>world = 0, calls = [CallInitActionConfig ''locked'']\<rparr>)"
    using fetch_single_status_query[of demoHelm "''locked''" "()" "()" ?s None "''forbidden''" 0 "''consul''",
        THEN conjunct1] i1 by simp
  have f2: "FetchChartValues demoHelm ''default'' ''other'' () () ?s
       = (Returns (None, Some ''release: not found''),
          \<lparr>world = 1, calls = [CallInitActionConfig ''default'', CallStatusRun ''other'']\<rparr>)"
    using fetch_single_status_query[of demoHelm "''default''" "()" "()" ?s "Some ''default''"
        "''release: not found''" 0 "''other''" None 1, THEN conjunct2, THEN conjunct1] i2 q1 by simp
  have f3: "FetchChartValues demoHelm ''default'' ''consul'' () () ?s
       = (Returns (Some ''replicas: 3'', None),
          \<lparr>world = 1, calls = [CallInitActionConfig ''default'', CallStatusRun ''consul'']\<rparr>)"
    using fetch_single_status_query[of demoHelm "''default''" "()" "()" ?s "Some ''default''"
        _ 0 "''consul''" _ 1 "(''consul'', ''replicas: 3'')", THEN conjunct2, THEN conjunct2, THEN conjunct1]
      i2 q2 c by simp
  show ?thesis using i1 i2 q1 q2 f1 f2 f3 by simp
qed

text \<open>
  Claim C10. When the initialisation in \<open>FetchChartValues\<close> succeeds with a configuration,
  the rest of \<open>FetchChartValues\<close> is the function \<open>a\<close> applied to that configuration and
  the release name: the two give the same result (values and error, or the same panic)
  and leave the same state behind.
\<close>

theorem a_is_status_part_of_fetch:
  assumes "InitActionConfig h (newConfiguration h) namespace settings uiLogger (world s) = ((config, None), w1)"
  shows "FetchChartValues h namespace name settings uiLogger s
         = a h config name \<lparr>world = w1, calls = calls s @ [CallInitActionConfig namespace]\<rparr>"
proof -
  obtain r2 e2 v2 where q: "StatusRun h config name w1 = ((r2, e2), v2)"
    by (metis prod.collapse)
  show ?thesis
    by (cases e2; cases r2; simp add: FetchChartValues_def a_def assms q)
qed

theorem a_is_status_part_of_fetch_witness:
  "InitActionConfig demoHelm (newConfiguration demoHelm) ''default'' () () 0 = ((Some ''default'', None), 0)
   \<and> FetchChartValues demoHelm ''default'' ''consul'' () () \<lparr>world = 0, calls = []\<rparr>
       = a demoHelm (Some ''default'') ''consul'' \<lparr>world = 0, calls = [CallInitActionConfig ''default'']\<rparr>
   \<and> a demoHelm (Some ''default'') ''consul'' \<lparr>world = 0, calls = [CallInitActionConfig ''default'']\<rparr>
       = (Returns (Some ''replicas: 3'', None),
          \<lparr>world = 1, calls = [CallInitActionConfig ''default'', CallStatusRun ''consul'']\<rparr>)"
proof -
  let ?s = "\<lparr>world = 0::nat, calls = []\<rparr>"
  have i: "InitActionConfig demoHelm (newConfiguration demoHelm) ''default'' () () (world ?s)
              = ((Some ''default'', None), 0)"
    by (simp add: demoHelm_def)
  have e: "a demoHelm (Some ''default'') ''consul'' \<lparr>world = 0, calls = [CallInitActionConfig ''default'']\<rparr>
       = (Returns (Some ''replicas: 3'', None),
          \<lparr>world = 1, calls = [CallInitActionConfig ''default'', CallStatusRun ''consul'']\<rparr>)"
    by (simp add: a_def demoHelm_def)
  show ?thesis
    using i e a_is_status_part_of_fetch[OF i, of "''consul''"] by simp
qed

end
